theory Spec2Isabelle
  imports
    Main
    "HOL-Library.AList"
    "HOL-Library.Char_ord"
    "HOL-Library.List_Lexorder"
    "HOL-Library.Multiset"
    "HOL-Library.Product_Lexorder"
begin

section \<open>Strings\<close>

text \<open>
  A JavaScript string is modelled as a \<^typ>\<open>string\<close> of 8-bit characters (code units below
  256). The relational operators on strings compare code unit by code unit, a proper prefix
  being smaller: that is the order of \<^typ>\<open>char list\<close> used here.

  \<open>s.split(c)\<close> with a one-character separator: the pieces between the separators; the
  result is never empty (\<open>''''.split(c)\<close> is \<open>['''']\<close>).
\<close>

fun split_str :: "char \<Rightarrow> string \<Rightarrow> string list" where
  "split_str c [] = [[]]"
| "split_str c (x # xs) =
     (if x = c then [] # split_str c xs
      else (case split_str c xs of [] \<Rightarrow> [[x]] | w # ws \<Rightarrow> (x # w) # ws))"

text \<open>\<open>arr.join(sep)\<close> on strings.\<close>

fun join_str :: "string \<Rightarrow> string list \<Rightarrow> string" where
  "join_str sep [] = []"
| "join_str sep [x] = x"
| "join_str sep (x # y # ys) = x @ sep @ join_str sep (y # ys)"

text \<open>The white space and line terminators that \<open>trim\<close> strips, among the 8-bit code units.\<close>

definition isWhiteSpace :: "char \<Rightarrow> bool" where
  "isWhiteSpace c =
     (c \<in> set [CHR 0x09, CHR 0x0A, CHR 0x0B, CHR 0x0C, CHR 0x0D, CHR 0x20, CHR 0xA0])"

definition trim :: "string \<Rightarrow> string" where
  "trim s = rev (dropWhile isWhiteSpace (rev (dropWhile isWhiteSpace s)))"

text \<open>
  A field of a record is a string or \<open>undefined\<close> (\<open>None\<close>). In a condition a field counts as
  true when it is a non-empty string.
\<close>

definition truthy :: "string option \<Rightarrow> bool" where
  "truthy v = (case v of None \<Rightarrow> False | Some s \<Rightarrow> s \<noteq> [])"

text \<open>A field inside a template literal: \<open>undefined\<close> prints as the word.\<close>

definition toStr :: "string option \<Rightarrow> string" where
  "toStr v = (case v of None \<Rightarrow> ''undefined'' | Some s \<Rightarrow> s)"

section \<open>Records and the CSV parser\<close>

text \<open>
  \<open>interface ForecastRecord\<close>. The fields \<open>date\<close> and \<open>time\<close> are declared \<open>string\<close>, but
  the parser stores \<open>undefined\<close> in them for an empty cell, so all five are optional here.
  The index signature \<open>[key: string]: string | undefined\<close> is the field \<open>extra\<close>: the
  other own properties of the object, in the order they were created.
\<close>

record ForecastRecord =
  date :: "string option"
  time :: "string option"
  load_fcst :: "string option"
  load_act :: "string option"
  revision :: "string option"
  extra :: "(string \<times> string option) list"

text \<open>
  Every object inherits the properties of \<open>Object.prototype\<close>. These are its data
  properties (functions, all writable); the remaining one, \<open>__proto__\<close>, is an accessor:
  reading it gives the prototype of the object, and assigning an object to it replaces the
  prototype, while assigning a string or \<open>undefined\<close> does nothing.
\<close>

definition objectPrototypeNames :: "string list" where
  "objectPrototypeNames =
     [''constructor'', ''__defineGetter__'', ''__defineSetter__'', ''hasOwnProperty'',
      ''__lookupGetter__'', ''__lookupSetter__'', ''isPrototypeOf'', ''propertyIsEnumerable'',
      ''toString'', ''valueOf'', ''toLocaleString'']"

text \<open>\<open>r[k]\<close> where \<open>k\<close> is an own property of the record \<open>r\<close>, else \<open>None\<close>.\<close>

definition ownProperty :: "ForecastRecord \<Rightarrow> string \<Rightarrow> string option option" where
  "ownProperty r k =
     (if k = ''date'' then Some (date r)
      else if k = ''time'' then Some (time r)
      else if k = ''load_fcst'' then Some (load_fcst r)
      else if k = ''load_act'' then Some (load_act r)
      else if k = ''revision'' then Some (revision r)
      else map_of (extra r) k)"

datatype error =
    NotFound
  | EmptyInput
  | MissingHeaders "string list"
  | TypeError

text \<open>The text of the \<open>Error\<close> that reaches the caller.\<close>

fun errorMessage :: "error \<Rightarrow> string" where
  "errorMessage NotFound = ''File not found''"
| "errorMessage EmptyInput =
     ''Failed to parse CSV: Error: CSV file is empty or has no data rows''"
| "errorMessage (MissingHeaders hs) =
     ''Failed to parse CSV: Error: Missing expected headers: '' @ join_str '', '' hs"
| "errorMessage TypeError = ''TypeError''"

text \<open>The record literal every line starts from.\<close>

definition blankRecord :: ForecastRecord where
  "blankRecord =
     \<lparr>date = Some [], time = Some [], load_fcst = None, load_act = None, revision = None,
      extra = []\<rparr>"

text \<open>\<open>values[i] ? values[i].trim() : undefined\<close>, on the cell if there is one.\<close>

definition cell :: "string option \<Rightarrow> string option" where
  "cell v = (if truthy v then Some (trim (toStr v)) else None)"

text \<open>
  \<open>if (header in record) record[header] = ...\<close>. A header is \<open>in\<close> the record when it
  names one of its own properties or an inherited one. Assigning under an inherited data
  property creates an own property of that name; assigning a string or \<open>undefined\<close> under
  the inherited accessor \<open>__proto__\<close> does nothing; a header of any other name is not
  \<open>in\<close> the record.
\<close>

definition setField :: "string \<Rightarrow> string option \<Rightarrow> ForecastRecord \<Rightarrow> ForecastRecord" where
  "setField h v r =
     (if h = ''date'' then r\<lparr>date := v\<rparr>
      else if h = ''time'' then r\<lparr>time := v\<rparr>
      else if h = ''load_fcst'' then r\<lparr>load_fcst := v\<rparr>
      else if h = ''load_act'' then r\<lparr>load_act := v\<rparr>
      else if h = ''revision'' then r\<lparr>revision := v\<rparr>
      else if map_of (extra r) h \<noteq> None \<or> h \<in> set objectPrototypeNames
        then r\<lparr>extra := AList.update h v (extra r)\<rparr>
      else r)"

text \<open>
  \<open>headers.forEach((header, i) => ...)\<close>: the i-th header takes the i-th value, or
  \<open>undefined\<close> when the line has fewer values than the header.
\<close>

fun assignFields :: "string list \<Rightarrow> string list \<Rightarrow> ForecastRecord \<Rightarrow> ForecastRecord" where
  "assignFields [] vs r = r"
| "assignFields (h # hs) vs r =
     assignFields hs (tl vs) (setField h (cell (case vs of [] \<Rightarrow> None | v # _ \<Rightarrow> Some v)) r)"

definition parseLine :: "string list \<Rightarrow> string \<Rightarrow> ForecastRecord" where
  "parseLine headers line = assignFields headers (split_str CHR '','' line) blankRecord"

definition headersOf :: "string list \<Rightarrow> string list" where
  "headersOf lines = map trim (split_str CHR '','' (hd lines))"

definition expectedHeaders :: "string \<Rightarrow> string list" where
  "expectedHeaders type =
     (if type = ''load'' then [''date'', ''time'', ''load_act'']
      else [''date'', ''time'', ''load_fcst'', ''revision''])"

definition parseCSV :: "string \<Rightarrow> string \<Rightarrow> error + ForecastRecord list" where
  "parseCSV csv type =
     (let lines = split_str CHR 0x0A csv in
      if length lines < 2 then Inl EmptyInput
      else
        let headers = headersOf lines;
            missingHeaders = filter (\<lambda>header. header \<notin> set headers) (expectedHeaders type)
        in if length missingHeaders > 0 then Inl (MissingHeaders missingHeaders)
           else Inr (map (parseLine headers) (tl lines)))"

section \<open>Deduplication\<close>

text \<open>
  The accumulator of each \<open>reduce\<close> is the object \<open>{}\<close> used as a dictionary from the key
  string to the record kept for it. Its own properties are the records stored so far;
  every key holds an underscore, so none is an array index and \<open>Object.values\<close> lists the
  records in the order their keys were first stored: an association list, in which
  \<open>AList.update\<close> replaces in place or appends. The object also has a prototype, at first
  \<open>Object.prototype\<close> (\<open>None\<close>), later possibly a record that was assigned under the key
  \<open>__proto__\<close>.
\<close>

record accum =
  own :: "(string \<times> ForecastRecord) list"
  proto :: "ForecastRecord option"

definition emptyObject :: accum where
  "emptyObject = \<lparr>own = [], proto = None\<rparr>"

text \<open>
  What the condition of a fold sees of \<open>acc[key]\<close>: whether it counts as false
  (\<open>undefined\<close> or an empty string), and for a value that counts as true its \<open>revision\<close>
  property (a function, a string and \<open>Object.prototype\<close> have none).
\<close>

datatype held = Falsy | Truthy "string option"

text \<open>
  \<open>acc[key]\<close>: an own property if there is one; else a property of the prototype record;
  else a property of \<open>Object.prototype\<close>, where \<open>__proto__\<close> gives the prototype of \<open>acc\<close>.
\<close>

definition getKey :: "accum \<Rightarrow> string \<Rightarrow> held" where
  "getKey acc key =
     (case map_of (own acc) key of
        Some e \<Rightarrow> Truthy (revision e)
      | None \<Rightarrow>
          (case (case proto acc of None \<Rightarrow> None | Some p \<Rightarrow> ownProperty p key) of
             Some v \<Rightarrow> if truthy v then Truthy None else Falsy
           | None \<Rightarrow>
               if key = ''__proto__''
               then Truthy (case proto acc of None \<Rightarrow> None | Some p \<Rightarrow> revision p)
               else if key \<in> set objectPrototypeNames then Truthy None
               else Falsy))"

text \<open>
  \<open>acc[key] = record\<close>: under the inherited accessor \<open>__proto__\<close> the record becomes the
  prototype of \<open>acc\<close> and no property is stored; under any other key, and under
  \<open>__proto__\<close> when it names a data property of \<open>acc\<close> or of its prototype record, the
  record is stored as an own property.
\<close>

definition setKey :: "accum \<Rightarrow> string \<Rightarrow> ForecastRecord \<Rightarrow> accum" where
  "setKey acc key record =
     (if key = ''__proto__'' \<and> map_of (own acc) key = None
         \<and> (case proto acc of None \<Rightarrow> True | Some p \<Rightarrow> ownProperty p key = None)
      then acc\<lparr>proto := Some record\<rparr>
      else acc\<lparr>own := AList.update key record (own acc)\<rparr>)"

text \<open>\<open>`${record.date}_${record.time}`\<close>\<close>

definition recordKey :: "ForecastRecord \<Rightarrow> string" where
  "recordKey record = toStr (date record) @ ''_'' @ toStr (time record)"

text \<open>
  \<open>new Date(s)\<close> is the platform's: the parameter \<open>dp\<close> gives the time value of a string,
  \<open>None\<close> for an Invalid Date (whose time value is NaN, so every comparison with it is
  false). \<open>new Date(undefined)\<close> is an Invalid Date.
\<close>

definition dateOf :: "(string \<Rightarrow> int option) \<Rightarrow> string option \<Rightarrow> int option" where
  "dateOf dp v = (case v of None \<Rightarrow> None | Some s \<Rightarrow> dp s)"

text \<open>\<open>new Date(a) > new Date(b)\<close>\<close>

definition newerDate :: "(string \<Rightarrow> int option) \<Rightarrow> string option \<Rightarrow> string option \<Rightarrow> bool" where
  "newerDate dp a b =
     (case dateOf dp a of None \<Rightarrow> False
      | Some x \<Rightarrow> (case dateOf dp b of None \<Rightarrow> False | Some y \<Rightarrow> y < x))"

text \<open>
  The second disjunct of the condition in \<open>getForecastData\<close>, where \<open>heldRevision\<close> is
  \<open>acc[key].revision\<close>: \<open>record.revision && acc[key].revision && new Date(..) > new Date(..)\<close>.
\<close>

definition readReplaces :: "(string \<Rightarrow> int option) \<Rightarrow> string option \<Rightarrow> ForecastRecord \<Rightarrow> bool" where
  "readReplaces dp heldRevision record =
     (truthy (revision record) \<and> truthy heldRevision
      \<and> newerDate dp (revision record) heldRevision)"

text \<open>
  The second disjunct in \<open>storeForecastData\<close> and \<open>processCSVChunk\<close>:
  \<open>record.revision && (!acc[key].revision || new Date(..) > new Date(..))\<close>.
\<close>

definition writeReplaces :: "(string \<Rightarrow> int option) \<Rightarrow> string option \<Rightarrow> ForecastRecord \<Rightarrow> bool" where
  "writeReplaces dp heldRevision record =
     (truthy (revision record)
      \<and> (\<not> truthy heldRevision \<or> newerDate dp (revision record) heldRevision))"

text \<open>
  The callback of the \<open>reduce\<close> in \<open>getForecastData\<close>:
  \<open>if (!acc[key] || (...)) acc[key] = record\<close>.
\<close>

definition groupStep :: "(string \<Rightarrow> int option) \<Rightarrow> accum \<Rightarrow> ForecastRecord \<Rightarrow> accum" where
  "groupStep dp acc record =
     (let key = recordKey record in
      case getKey acc key of
        Falsy \<Rightarrow> setKey acc key record
      | Truthy heldRevision \<Rightarrow>
          if readReplaces dp heldRevision record then setKey acc key record else acc)"

text \<open>The own properties of the accumulator at the end of the \<open>reduce\<close>, from \<open>{}\<close>.\<close>

definition groupedRecords ::
  "(string \<Rightarrow> int option) \<Rightarrow> ForecastRecord list \<Rightarrow> (string \<times> ForecastRecord) list" where
  "groupedRecords dp filteredRecords = own (foldl (groupStep dp) emptyObject filteredRecords)"

text \<open>The callback of the \<open>reduce\<close> in \<open>storeForecastData\<close>.\<close>

definition latestStep :: "(string \<Rightarrow> int option) \<Rightarrow> accum \<Rightarrow> ForecastRecord \<Rightarrow> accum" where
  "latestStep dp acc record =
     (let key = recordKey record in
      case getKey acc key of
        Falsy \<Rightarrow> setKey acc key record
      | Truthy heldRevision \<Rightarrow>
          if writeReplaces dp heldRevision record then setKey acc key record else acc)"

definition latestRecords ::
  "(string \<Rightarrow> int option) \<Rightarrow> ForecastRecord list \<Rightarrow> (string \<times> ForecastRecord) list" where
  "latestRecords dp data = own (foldl (latestStep dp) emptyObject data)"

text \<open>
  The callback of the \<open>reduce\<close> in \<open>processCSVChunk\<close>: the same condition, and the counter
  \<open>duplicateRecords\<close> incremented in the \<open>else\<close> branch. The counter is the second component
  of the state.
\<close>

definition chunkStep ::
  "(string \<Rightarrow> int option) \<Rightarrow> accum \<times> nat \<Rightarrow> ForecastRecord \<Rightarrow> accum \<times> nat" where
  "chunkStep dp st record =
     (let key = recordKey record; acc = fst st; duplicateRecords = snd st in
      case getKey acc key of
        Falsy \<Rightarrow> (setKey acc key record, duplicateRecords)
      | Truthy heldRevision \<Rightarrow>
          if writeReplaces dp heldRevision record then (setKey acc key record, duplicateRecords)
          else (acc, duplicateRecords + 1))"

text \<open>The own properties of the accumulator and the counter at the end of the \<open>reduce\<close>.\<close>

definition chunkLatest ::
  "(string \<Rightarrow> int option) \<Rightarrow> ForecastRecord list \<Rightarrow> (string \<times> ForecastRecord) list \<times> nat" where
  "chunkLatest dp records =
     (let st = foldl (chunkStep dp) (emptyObject, 0) records in (own (fst st), snd st))"

section \<open>The Storage Writer\<close>

text \<open>
  A prepared statement with its bound values. The database is a parameter: \<open>run db s\<close>
  gives whether the statement succeeded (\<open>False\<close>: it raised) and the database after it.
\<close>

record stmt =
  table :: string
  columns :: "string list"
  params :: "string option list"

definition tableName :: "string \<Rightarrow> string" where
  "tableName type = (if type = ''load'' then ''load_act'' else type @ ''_load_fcst'')"

definition fieldName :: "string \<Rightarrow> string" where
  "fieldName type = (if type = ''load'' then ''load_act'' else ''load_fcst'')"

text \<open>\<open>record[fieldName]\<close>\<close>

definition fieldValue :: "string \<Rightarrow> ForecastRecord \<Rightarrow> string option" where
  "fieldValue type record = (if type = ''load'' then load_act record else load_fcst record)"

definition upsertStmt :: "string \<Rightarrow> ForecastRecord \<Rightarrow> string \<Rightarrow> stmt" where
  "upsertStmt type record value =
     (if type = ''load'' then
        \<lparr>table = tableName type, columns = [''date'', ''time'', fieldName type],
         params = [date record, time record, Some value]\<rparr>
      else
        \<lparr>table = tableName type, columns = [''date'', ''time'', fieldName type, ''revision''],
         params = [date record, time record, Some value, revision record]\<rparr>)"

text \<open>
  The locals of the loop in \<open>storeForecastData\<close>, the database, and the statements the loop
  has run so far with their outcomes (the observable trace of the loop).
\<close>

record 'db storeState =
  insertedCount :: nat
  errorCount :: nat
  issued :: "(stmt \<times> bool) list"
  db :: 'db

text \<open>The body of \<open>for (const record of records)\<close>.\<close>

definition storeRecord ::
  "('db \<Rightarrow> stmt \<Rightarrow> bool \<times> 'db) \<Rightarrow> string \<Rightarrow> 'db storeState \<Rightarrow> ForecastRecord \<Rightarrow> 'db storeState" where
  "storeRecord run type st record =
     (case fieldValue type record of
        None \<Rightarrow> st
      | Some value \<Rightarrow>
          let s = upsertStmt type record value; (ok, db') = run (db st) s in
          if ok then st\<lparr>insertedCount := insertedCount st + 1,
                        issued := issued st @ [(s, True)], db := db'\<rparr>
          else st\<lparr>errorCount := errorCount st + 1,
                  issued := issued st @ [(s, False)], db := db'\<rparr>)"

definition storeLoop ::
  "('db \<Rightarrow> stmt \<Rightarrow> bool \<times> 'db) \<Rightarrow> string \<Rightarrow> ForecastRecord list \<Rightarrow> 'db \<Rightarrow> 'db storeState" where
  "storeLoop run type records db0 =
     foldl (storeRecord run type)
       \<lparr>insertedCount = 0, errorCount = 0, issued = [], db = db0\<rparr> records"

text \<open>\<open>storeForecastData\<close> at the end of its loop; it returns \<open>insertedCount\<close> of this state.\<close>

definition storeForecastData ::
  "('db \<Rightarrow> stmt \<Rightarrow> bool \<times> 'db) \<Rightarrow> (string \<Rightarrow> int option) \<Rightarrow> string \<Rightarrow> ForecastRecord list
     \<Rightarrow> 'db \<Rightarrow> 'db storeState" where
  "storeForecastData run dp type data db0 =
     (let latest = latestRecords dp data; records = map snd latest
      in storeLoop run type records db0)"

section \<open>Chunk processing\<close>

text \<open>\<open>arr.slice(start, end)\<close> on integers: a negative index counts from the end.\<close>

definition slice :: "int \<Rightarrow> int \<Rightarrow> 'a list \<Rightarrow> 'a list" where
  "slice start fin xs =
     (let len = int (length xs);
          k = (if start < 0 then max (len + start) 0 else min start len);
          final = (if fin < 0 then max (len + fin) 0 else min fin len)
      in take (nat (final - k)) (drop (nat k) xs))"

text \<open>\<open>toLowerCase\<close> on the 8-bit code units: the letters A-Z and the Latin-1 capitals.\<close>

definition lowerChar :: "char \<Rightarrow> char" where
  "lowerChar c =
     (let n = (of_char c :: nat) in
      if (65 \<le> n \<and> n \<le> 90) \<or> (192 \<le> n \<and> n \<le> 222 \<and> n \<noteq> 215) then char_of (n + 32) else c)"

definition toLowerCase :: "string \<Rightarrow> string" where
  "toLowerCase s = map lowerChar s"

fun startsWith :: "string \<Rightarrow> string \<Rightarrow> bool" where
  "startsWith s [] = True"
| "startsWith [] (p # ps) = False"
| "startsWith (x # xs) (p # ps) = (x = p \<and> startsWith xs ps)"

text \<open>
  \<open>fileName.startsWith('load_act') ? 'load' : fileName.split('_')[0].toLowerCase()\<close>
\<close>

definition typeOfFile :: "string \<Rightarrow> string" where
  "typeOfFile fileName =
     (if startsWith fileName ''load_act'' then ''load''
      else toLowerCase (hd (split_str CHR ''_'' fileName)))"

text \<open>\<open>record.date && record.time && (record.load_fcst || record.load_act)\<close>\<close>

definition validRecord :: "ForecastRecord \<Rightarrow> bool" where
  "validRecord record =
     (truthy (date record) \<and> truthy (time record)
      \<and> (truthy (load_fcst record) \<or> truthy (load_act record)))"

text \<open>
  The callback of the \<open>map\<close> over the window, with the two counters it increments, followed
  by the \<open>filter\<close> that drops the \<open>null\<close>s: the state is the records kept so far,
  \<open>validRecords\<close> and \<open>invalidRecords\<close>.
\<close>

definition windowStep ::
  "string list \<Rightarrow> ForecastRecord list \<times> nat \<times> nat \<Rightarrow> string \<Rightarrow> ForecastRecord list \<times> nat \<times> nat" where
  "windowStep headers st line =
     (case st of (records, validRecords, invalidRecords) \<Rightarrow>
        let record = parseLine headers line in
        if validRecord record then (records @ [record], validRecords + 1, invalidRecords)
        else (records, validRecords, invalidRecords + 1))"

record ChunkResult =
  processedLines :: int
  validRecords :: nat
  invalidRecords :: nat
  duplicateRecords :: nat
  inserted :: nat
  hasMore :: bool

text \<open>
  \<open>processCSVChunk\<close>. The bucket is a parameter (\<open>None\<close>: no such file). The result comes
  with what the Storage Writer was given and the state it ended in. The field \<open>inserted\<close> is
  the \<open>insertedCount\<close> of the returned object.
\<close>

definition chunkWindow :: "string \<Rightarrow> int \<Rightarrow> int \<Rightarrow> string list" where
  "chunkWindow content startLine chunkSize =
     slice startLine (startLine + chunkSize) (split_str CHR 0x0A content)"

definition processCSVChunk ::
  "(string \<Rightarrow> string option) \<Rightarrow> ('db \<Rightarrow> stmt \<Rightarrow> bool \<times> 'db) \<Rightarrow> (string \<Rightarrow> int option)
     \<Rightarrow> string \<Rightarrow> int \<Rightarrow> int \<Rightarrow> 'db
     \<Rightarrow> error + (ChunkResult \<times> ForecastRecord list \<times> 'db storeState)" where
  "processCSVChunk bucket run dp fileName startLine chunkSize db0 =
     (case bucket fileName of
        None \<Rightarrow> Inl NotFound
      | Some content \<Rightarrow>
          let lines = split_str CHR 0x0A content;
              headers = headersOf lines;
              type = typeOfFile fileName;
              (records, valid, invalid) =
                 foldl (windowStep headers) ([], 0, 0)
                   (slice startLine (startLine + chunkSize) lines);
              (latest, dups) = chunkLatest dp records;
              passed = map snd latest;
              st = storeForecastData run dp type passed db0
          in Inr (\<lparr>processedLines = chunkSize, validRecords = valid,
                    invalidRecords = invalid, duplicateRecords = dups,
                    inserted = insertedCount st,
                    hasMore = (startLine + chunkSize < int (length lines))\<rparr>,
                  passed, st))"

text \<open>
  The caller's loop, which is not part of the worker: call \<open>processCSVChunk\<close>, and while the
  result says \<open>hasMore\<close> call again with \<open>startLine\<close> advanced by \<open>chunkSize\<close>. It collects
  the results of the calls. The loop need not end, so it is a partial function: \<open>None\<close>
  is a loop that never stops.
\<close>

partial_function (option) driveChunks ::
  "(string \<Rightarrow> string option) \<Rightarrow> ('db \<Rightarrow> stmt \<Rightarrow> bool \<times> 'db) \<Rightarrow> (string \<Rightarrow> int option)
     \<Rightarrow> string \<Rightarrow> int \<Rightarrow> int \<Rightarrow> 'db \<Rightarrow> ChunkResult list
     \<Rightarrow> (error + ChunkResult list \<times> 'db) option" where
  "driveChunks bucket run dp fileName startLine chunkSize db0 done =
     (case processCSVChunk bucket run dp fileName startLine chunkSize db0 of
        Inl e \<Rightarrow> Some (Inl e)
      | Inr (res, passed, st) \<Rightarrow>
          if hasMore res
          then driveChunks bucket run dp fileName (startLine + chunkSize) chunkSize (db st)
                 (done @ [res])
          else Some (Inr (done @ [res], db st)))"

declare driveChunks.simps [code]

section \<open>The Range Reader\<close>

text \<open>\<open>record.date >= startDate && record.date <= endDate\<close>; no comparison with \<open>undefined\<close> holds.\<close>

definition inRange :: "string \<Rightarrow> string \<Rightarrow> ForecastRecord \<Rightarrow> bool" where
  "inRange startDate endDate record =
     (case date record of None \<Rightarrow> False | Some d \<Rightarrow> startDate \<le> d \<and> d \<le> endDate)"

text \<open>
  The comparator \<open>a.date.localeCompare(b.date) || a.time.localeCompare(b.time)\<close>.
  \<open>localeCompare\<close> is the platform's collation, the parameter \<open>lc\<close>; its argument is
  converted to a string, and calling it on \<open>undefined\<close> is a TypeError.
\<close>

definition compareRecords ::
  "(string \<Rightarrow> string \<Rightarrow> int) \<Rightarrow> ForecastRecord \<Rightarrow> ForecastRecord \<Rightarrow> error + int" where
  "compareRecords lc a b =
     (case date a of
        None \<Rightarrow> Inl TypeError
      | Some da \<Rightarrow>
          let c = lc da (toStr (date b)) in
          if c \<noteq> 0 then Inr c
          else (case time a of
                  None \<Rightarrow> Inl TypeError
                | Some ta \<Rightarrow> Inr (lc ta (toStr (time b)))))"

text \<open>
  \<open>Array.prototype.sort\<close> is the platform's, and the order in which it calls the comparator
  is left to the engine: the parameter \<open>srt\<close>, which takes the comparator and the array and
  gives the sorted array, or the exception of a call of the comparator.
\<close>

definition getForecastData ::
  "(string \<Rightarrow> string option) \<Rightarrow> (string \<Rightarrow> int option) \<Rightarrow> (string \<Rightarrow> string \<Rightarrow> int)
     \<Rightarrow> ((ForecastRecord \<Rightarrow> ForecastRecord \<Rightarrow> error + int) \<Rightarrow> ForecastRecord list
          \<Rightarrow> error + ForecastRecord list)
     \<Rightarrow> string \<Rightarrow> string \<Rightarrow> string \<Rightarrow> error + ForecastRecord list" where
  "getForecastData bucket dp lc srt type startDate endDate =
     (case bucket (type @ ''_load_fcst_archive.csv'') of
        None \<Rightarrow> Inl NotFound
      | Some content \<Rightarrow>
          (case parseCSV content type of
             Inl e \<Rightarrow> Inl e
           | Inr records \<Rightarrow>
               let filteredRecords = filter (inRange startDate endDate) records;
                   grouped = groupedRecords dp filteredRecords
               in srt (compareRecords lc) (map snd grouped)))"

section \<open>Auxiliary notions\<close>

text \<open>
  What a fold does to the slot of one key: an empty slot takes the record, a held record
  is replaced when the comparator says so.
\<close>

definition slotStep ::
  "(string option \<Rightarrow> ForecastRecord \<Rightarrow> bool) \<Rightarrow> ForecastRecord option \<Rightarrow> ForecastRecord
     \<Rightarrow> ForecastRecord option" where
  "slotStep replaces slot record =
     (case slot of
        None \<Rightarrow> Some record
      | Some e \<Rightarrow> if replaces (revision e) record then Some record else Some e)"

text \<open>
  The keys under which an empty object already holds an inherited property.
\<close>

definition inheritedKeys :: "string list" where
  "inheritedKeys = ''__proto__'' # objectPrototypeNames"


text \<open>
  The statements a batch of resolved records calls for, in order: one for each record that
  has the value field of its kind, none for a record without it.
\<close>

definition stmtsFor :: "string \<Rightarrow> ForecastRecord list \<Rightarrow> stmt list" where
  "stmtsFor type records =
     List.map_filter (\<lambda>r. map_option (upsertStmt type r) (fieldValue type r)) records"

text \<open>
  The number of structurally valid lines among some lines of a file.
\<close>

definition validIn :: "string list \<Rightarrow> string list \<Rightarrow> nat" where
  "validIn headers ls = length (filter validRecord (map (parseLine headers) ls))"

text \<open>
  What the sorting needs of \<open>localeCompare\<close>: swapping the arguments swaps the sign, and
  the order is transitive.
\<close>

definition collation :: "(string \<Rightarrow> string \<Rightarrow> int) \<Rightarrow> bool" where
  "collation lc =
     ((\<forall>a b. (lc a b < 0) = (0 < lc b a))
      \<and> (\<forall>a b c. lc a b \<le> 0 \<and> lc b c \<le> 0 \<longrightarrow> lc a c \<le> 0))"




text \<open>
  The order of the comparator on records: by date, then by time, each under \<open>lc\<close>; an
  absent field compares as the string \<open>undefined\<close>, as an argument of \<open>localeCompare\<close> does.
\<close>

definition recordLe :: "(string \<Rightarrow> string \<Rightarrow> int) \<Rightarrow> ForecastRecord \<Rightarrow> ForecastRecord \<Rightarrow> bool" where
  "recordLe lc a b =
     (let c = lc (toStr (date a)) (toStr (date b))
      in c < 0 \<or> (c = 0 \<and> lc (toStr (time a)) (toStr (time b)) \<le> 0))"

section \<open>Stand-ins for the platform, and example data\<close>

text \<open>
  The time values of the two revision strings of the examples, as \<open>Date\<close> gives them
  (milliseconds since the epoch). The examples use no other revision string.
\<close>

definition sampleDate :: "string \<Rightarrow> int option" where
  "sampleDate s =
     (if s = ''2024-01-01T00:00:00Z'' then Some 1704067200000
      else if s = ''2024-01-02T00:00:00Z'' then Some 1704153600000
      else None)"

text \<open>
  A stand-in for \<open>localeCompare\<close> that is a consistent order: alphabetical order that
  looks at the case of letters only between strings that are otherwise equal, so it places
  \<open>am\<close> before \<open>PM\<close>, as every alphabetical collation does. On the other strings of the
  examples, which hold no capital letter and have the same length, it is the comparison
  by code unit.
\<close>

definition sampleCollate :: "string \<Rightarrow> string \<Rightarrow> int" where
  "sampleCollate a b =
     (let ka = (toLowerCase a, a); kb = (toLowerCase b, b)
      in if ka < kb then - 1 else if ka = kb then 0 else 1)"

text \<open>
  A stand-in for \<open>sort\<close>: an insertion sort that takes the elements in the order of the
  array and, as the engine does on a short array, calls the comparator with the later
  element first and an element of the sorted part second. The sorted part is kept in
  reverse; an element stays behind those it compares equal to, so the sort is stable. An
  exception of the comparator ends the sort.
\<close>

fun insertLater :: "('a \<Rightarrow> 'a \<Rightarrow> error + int) \<Rightarrow> 'a \<Rightarrow> 'a list \<Rightarrow> error + 'a list" where
  "insertLater cmp x [] = Inr [x]"
| "insertLater cmp x (y # ys) =
     (case cmp x y of
        Inl e \<Rightarrow> Inl e
      | Inr c \<Rightarrow>
          if c < 0
          then (case insertLater cmp x ys of Inl e \<Rightarrow> Inl e | Inr zs \<Rightarrow> Inr (y # zs))
          else Inr (x # y # ys))"

fun sortFrom :: "('a \<Rightarrow> 'a \<Rightarrow> error + int) \<Rightarrow> 'a list \<Rightarrow> 'a list \<Rightarrow> error + 'a list" where
  "sortFrom cmp placed [] = Inr (rev placed)"
| "sortFrom cmp placed (x # xs) =
     (case insertLater cmp x placed of Inl e \<Rightarrow> Inl e | Inr s \<Rightarrow> sortFrom cmp s xs)"

definition sampleSort :: "('a \<Rightarrow> 'a \<Rightarrow> error + int) \<Rightarrow> 'a list \<Rightarrow> error + 'a list" where
  "sampleSort cmp xs = sortFrom cmp [] xs"

text \<open>
  A bucket holding one file.
\<close>

definition oneFile :: "string \<Rightarrow> string \<Rightarrow> string \<Rightarrow> string option" where
  "oneFile name content k = (if k = name then Some content else None)"

text \<open>
  A database that keeps the statements it ran; it refuses a statement with an absent
  value.
\<close>

definition sampleRun :: "stmt list \<Rightarrow> stmt \<Rightarrow> bool \<times> stmt list" where
  "sampleRun d s = (if None \<in> set (params s) then (False, d) else (True, d @ [s]))"

text \<open>
  A file from its lines, and the name and header of a forecast file.
\<close>

definition fileOf :: "string list \<Rightarrow> string" where
  "fileOf lines = join_str [CHR 0x0A] lines"

definition fcstName :: string where
  "fcstName = ''d_load_fcst_archive.csv''"

definition fcstHeader :: string where
  "fcstHeader = ''date,time,load_fcst,revision''"

text \<open>
  The two lines of the running example, of one key, and their records; the first line
  again with an empty revision cell, and with an empty time cell.
\<close>

definition lineOld :: string where
  "lineOld = ''2024-01-01,00:00,100,2024-01-01T00:00:00Z''"

definition lineNew :: string where
  "lineNew = ''2024-01-01,00:00,105,2024-01-02T00:00:00Z''"

definition fcOld :: ForecastRecord where
  "fcOld = \<lparr>date = Some ''2024-01-01'', time = Some ''00:00'', load_fcst = Some ''100'',
            load_act = None, revision = Some ''2024-01-01T00:00:00Z'',
     extra = []\<rparr>"

definition fcNew :: ForecastRecord where
  "fcNew = \<lparr>date = Some ''2024-01-01'', time = Some ''00:00'', load_fcst = Some ''105'',
            load_act = None, revision = Some ''2024-01-02T00:00:00Z'',
     extra = []\<rparr>"

definition lineBare :: string where
  "lineBare = ''2024-01-01,00:00,100,''"

definition fcBare :: ForecastRecord where
  "fcBare = \<lparr>date = Some ''2024-01-01'', time = Some ''00:00'', load_fcst = Some ''100'',
             load_act = None, revision = None,
     extra = []\<rparr>"

definition lineNoTime :: string where
  "lineNoTime = ''2024-01-01,,100,2024-01-01T00:00:00Z''"



text \<open>
  Records of other keys: one without a revision, which the sample database refuses, one
  without a forecast value, and one complete.
\<close>

definition fcNoRevision :: ForecastRecord where
  "fcNoRevision = \<lparr>date = Some ''2024-01-01'', time = Some ''01:00'', load_fcst = Some ''90'',
             load_act = None, revision = None,
     extra = []\<rparr>"

definition fcNoValue :: ForecastRecord where
  "fcNoValue = \<lparr>date = Some ''2024-01-01'', time = Some ''02:00'', load_fcst = None,
             load_act = None, revision = Some ''2024-01-02T00:00:00Z'',
     extra = []\<rparr>"

definition fcThird :: ForecastRecord where
  "fcThird = \<lparr>date = Some ''2024-01-01'', time = Some ''03:00'', load_fcst = Some ''80'',
             load_act = None, revision = Some ''2024-01-02T00:00:00Z'',
     extra = []\<rparr>"








text \<open>
  Two lines whose key is \<open>__proto__\<close> (the date \<open>_\<close> and the time label \<open>proto__\<close>), and
  their records.
\<close>

definition lineProtoOld :: string where
  "lineProtoOld = ''_,proto__,100,2024-01-01T00:00:00Z''"

definition lineProtoNew :: string where
  "lineProtoNew = ''_,proto__,105,2024-01-02T00:00:00Z''"

definition fcProtoOld :: ForecastRecord where
  "fcProtoOld = \<lparr>date = Some ''_'', time = Some ''proto__'', load_fcst = Some ''100'',
     load_act = None, revision = Some ''2024-01-01T00:00:00Z'',
     extra = []\<rparr>"

definition fcProtoNew :: ForecastRecord where
  "fcProtoNew = \<lparr>date = Some ''_'', time = Some ''proto__'', load_fcst = Some ''105'',
     load_act = None, revision = Some ''2024-01-02T00:00:00Z'',
     extra = []\<rparr>"

text \<open>
  A record whose forecast value is the empty string.
\<close>

definition fcEmptyValue :: ForecastRecord where
  "fcEmptyValue = \<lparr>date = Some ''2024-01-01'', time = Some ''04:00'', load_fcst = Some [],
     load_act = None, revision = Some ''2024-01-02T00:00:00Z'',
     extra = []\<rparr>"

section \<open>Properties of the parser\<close>

lemma split_str_nonempty: "split_str c s \<noteq> []"
  by (induction s) (auto split: list.splits)

lemma length_split_str: "length (split_str c s) = Suc (length (filter (\<lambda>x. x = c) s))"
  by (induction s) (auto split: list.splits)

section \<open>Properties of the folds\<close>

lemma getKey_own: "map_of (own a) k = Some e \<Longrightarrow> getKey a k = Truthy (revision e)"
  by (simp add: getKey_def)

lemma getKey_plain:
  "map_of (own a) k = None \<Longrightarrow> proto a = None \<Longrightarrow> k \<notin> set inheritedKeys \<Longrightarrow> getKey a k = Falsy"
  by (simp add: getKey_def inheritedKeys_def)

lemma getKey_inherited:
  "map_of (own a) k = None \<Longrightarrow> proto a = None \<Longrightarrow> k \<in> set inheritedKeys \<Longrightarrow>
     getKey a k = Truthy None"
  by (auto simp: getKey_def inheritedKeys_def)

lemma setKey_stores:
  "k \<noteq> ''__proto__'' \<or> map_of (own a) k \<noteq> None \<Longrightarrow>
     setKey a k r = a\<lparr>own := AList.update k r (own a)\<rparr>"
  by (auto simp: setKey_def)

lemma setKey_proto:
  "map_of (own a) ''__proto__'' = None \<Longrightarrow> proto a = None \<Longrightarrow>
     setKey a ''__proto__'' r = a\<lparr>proto := Some r\<rparr>"
  by (simp add: setKey_def)

lemma slotStep_None: "slotStep replaces None r = Some r"
  by (simp add: slotStep_def)

lemma slotStep_Some:
  "slotStep replaces (Some e) r = (if replaces (revision e) r then Some r else Some e)"
  by (simp add: slotStep_def)

text \<open>
  While the prototype of the accumulator is \<open>Object.prototype\<close>, a step acts on the slot
  of a key that is not inherited as on a dictionary.
\<close>

lemma latestStep_slot:
  assumes p: "proto a = None"
    and r: "recordKey r = ''__proto__'' \<longrightarrow> \<not> truthy (revision r)"
  shows "proto (latestStep dp a r) = None"
    and "k \<notin> set inheritedKeys \<Longrightarrow>
           map_of (own (latestStep dp a r)) k =
             (if recordKey r = k then slotStep (writeReplaces dp) (map_of (own a) k) r
              else map_of (own a) k)"
proof -
  show "proto (latestStep dp a r) = None"
  proof (cases "map_of (own a) (recordKey r)")
    case None
    show ?thesis
    proof (cases "recordKey r \<in> set inheritedKeys")
      case True
      from getKey_inherited [OF None p True] r p show ?thesis
        by (cases "recordKey r = ''__proto__''")
          (simp_all add: latestStep_def writeReplaces_def setKey_stores truthy_def)
    next
      case False
      then have "recordKey r \<noteq> ''__proto__''" by (auto simp: inheritedKeys_def)
      with getKey_plain [OF None p False] p show ?thesis
        by (simp add: latestStep_def setKey_stores)
    qed
  next
    case (Some e)
    from getKey_own [OF Some] Some p show ?thesis
      by (simp add: latestStep_def setKey_stores)
  qed
next
  assume k: "k \<notin> set inheritedKeys"
  show "map_of (own (latestStep dp a r)) k =
          (if recordKey r = k then slotStep (writeReplaces dp) (map_of (own a) k) r
           else map_of (own a) k)"
  proof (cases "map_of (own a) (recordKey r)")
    case None
    show ?thesis
    proof (cases "recordKey r \<in> set inheritedKeys")
      case True
      with k have ne: "recordKey r \<noteq> k" by auto
      from getKey_inherited [OF None p True] r p ne show ?thesis
        by (cases "recordKey r = ''__proto__''")
          (simp_all add: latestStep_def writeReplaces_def setKey_stores truthy_def update_conv')
    next
      case False
      then have "recordKey r \<noteq> ''__proto__''" by (auto simp: inheritedKeys_def)
      with getKey_plain [OF None p False] None show ?thesis
        by (auto simp: latestStep_def setKey_stores update_conv' slotStep_None)
    qed
  next
    case (Some e)
    from getKey_own [OF Some] Some show ?thesis
      by (auto simp: latestStep_def setKey_stores update_conv' slotStep_Some)
  qed
qed

lemma groupStep_slot:
  assumes p: "proto a = None"
  shows "proto (groupStep dp a r) = None"
    and "k \<notin> set inheritedKeys \<Longrightarrow>
           map_of (own (groupStep dp a r)) k =
             (if recordKey r = k then slotStep (readReplaces dp) (map_of (own a) k) r
              else map_of (own a) k)"
proof -
  show "proto (groupStep dp a r) = None"
  proof (cases "map_of (own a) (recordKey r)")
    case None
    show ?thesis
    proof (cases "recordKey r \<in> set inheritedKeys")
      case True
      from getKey_inherited [OF None p True] p show ?thesis
        by (simp add: groupStep_def readReplaces_def truthy_def)
    next
      case False
      then have "recordKey r \<noteq> ''__proto__''" by (auto simp: inheritedKeys_def)
      with getKey_plain [OF None p False] p show ?thesis
        by (simp add: groupStep_def setKey_stores)
    qed
  next
    case (Some e)
    from getKey_own [OF Some] Some p show ?thesis
      by (simp add: groupStep_def setKey_stores)
  qed
next
  assume k: "k \<notin> set inheritedKeys"
  show "map_of (own (groupStep dp a r)) k =
          (if recordKey r = k then slotStep (readReplaces dp) (map_of (own a) k) r
           else map_of (own a) k)"
  proof (cases "map_of (own a) (recordKey r)")
    case None
    show ?thesis
    proof (cases "recordKey r \<in> set inheritedKeys")
      case True
      with k have ne: "recordKey r \<noteq> k" by auto
      from getKey_inherited [OF None p True] ne show ?thesis
        by (simp add: groupStep_def readReplaces_def truthy_def)
    next
      case False
      then have "recordKey r \<noteq> ''__proto__''" by (auto simp: inheritedKeys_def)
      with getKey_plain [OF None p False] None show ?thesis
        by (auto simp: groupStep_def setKey_stores update_conv' slotStep_None)
    qed
  next
    case (Some e)
    from getKey_own [OF Some] Some show ?thesis
      by (auto simp: groupStep_def setKey_stores update_conv' slotStep_Some)
  qed
qed

text \<open>The record a fold keeps for such a key depends on the rows of that key alone.\<close>

lemma foldl_latestStep_slot:
  assumes "proto a = None"
    and "\<forall>r \<in> set xs. recordKey r = ''__proto__'' \<longrightarrow> \<not> truthy (revision r)"
    and "k \<notin> set inheritedKeys"
  shows "proto (foldl (latestStep dp) a xs) = None
         \<and> map_of (own (foldl (latestStep dp) a xs)) k =
             foldl (slotStep (writeReplaces dp)) (map_of (own a) k)
               (filter (\<lambda>r. recordKey r = k) xs)"
  using assms(1,2)
proof (induction xs arbitrary: a)
  case Nil
  then show ?case by simp
next
  case (Cons x xs)
  from Cons.prems have x: "recordKey x = ''__proto__'' \<longrightarrow> \<not> truthy (revision x)"
    and xs: "\<forall>r \<in> set xs. recordKey r = ''__proto__'' \<longrightarrow> \<not> truthy (revision r)" by simp_all
  note s = latestStep_slot [OF Cons.prems(1) x, where dp = dp]
  from Cons.IH [OF s(1) xs] s(2) [OF assms(3)] show ?case by simp
qed

lemma foldl_groupStep_slot:
  assumes "proto a = None" and "k \<notin> set inheritedKeys"
  shows "proto (foldl (groupStep dp) a xs) = None
         \<and> map_of (own (foldl (groupStep dp) a xs)) k =
             foldl (slotStep (readReplaces dp)) (map_of (own a) k)
               (filter (\<lambda>r. recordKey r = k) xs)"
  using assms(1)
proof (induction xs arbitrary: a)
  case Nil
  then show ?case by simp
next
  case (Cons x xs)
  note s = groupStep_slot [OF Cons.prems, where dp = dp and r = x]
  from Cons.IH [OF s(1)] s(2) [OF assms(2)] show ?case by simp
qed

text \<open>The fold of \<open>processCSVChunk\<close> keeps what the fold of \<open>storeForecastData\<close> keeps.\<close>

lemma chunkStep_fst: "fst (chunkStep dp st r) = latestStep dp (fst st) r"
  by (simp add: chunkStep_def latestStep_def Let_def split: held.splits)

lemma foldl_chunkStep_fst:
  "fst (foldl (chunkStep dp) st xs) = foldl (latestStep dp) (fst st) xs"
  by (induction xs arbitrary: st) (simp_all add: chunkStep_fst)

lemma chunkLatest_fst: "fst (chunkLatest dp xs) = latestRecords dp xs"
  by (simp add: chunkLatest_def latestRecords_def foldl_chunkStep_fst Let_def)

section \<open>Latest revision wins\<close>

text \<open>
  For a key that is not inherited, in an input without rows of the key \<open>__proto__\<close>: when
  the rows of the key are two rows whose revisions \<open>Date\<close> parses to \<open>t1 < t2\<close>, in either
  order, each of the three folds keeps the row of the later revision.
\<close>

lemma later_revision_kept:
  assumes ra: "revision a = Some r1" "r1 \<noteq> []" "dp r1 = Some t1"
    and rb: "revision b = Some r2" "r2 \<noteq> []" "dp r2 = Some t2"
    and lt: "t1 < t2"
    and rows: "filter (\<lambda>r. recordKey r = recordKey b) xs = [a, b]
               \<or> filter (\<lambda>r. recordKey r = recordKey b) xs = [b, a]"
    and key: "recordKey b \<notin> set inheritedKeys"
    and others: "\<forall>r \<in> set xs. recordKey r \<noteq> ''__proto__''"
  shows "map_of (latestRecords dp xs) (recordKey b) = Some b
         \<and> map_of (fst (chunkLatest dp xs)) (recordKey b) = Some b
         \<and> map_of (groupedRecords dp xs) (recordKey b) = Some b"
proof -
  have w1: "writeReplaces dp (revision a) b" and w2: "\<not> writeReplaces dp (revision b) a"
    and g1: "readReplaces dp (revision a) b" and g2: "\<not> readReplaces dp (revision b) a"
    using ra rb lt
    by (simp_all add: writeReplaces_def readReplaces_def truthy_def newerDate_def dateOf_def)
  have "foldl (slotStep (writeReplaces dp)) None
          (filter (\<lambda>r. recordKey r = recordKey b) xs) = Some b"
    using rows w1 w2 by (auto simp: slotStep_None slotStep_Some)
  moreover have "foldl (slotStep (readReplaces dp)) None
          (filter (\<lambda>r. recordKey r = recordKey b) xs) = Some b"
    using rows g1 g2 by (auto simp: slotStep_None slotStep_Some)
  moreover have "\<forall>r \<in> set xs. recordKey r = ''__proto__'' \<longrightarrow> \<not> truthy (revision r)"
    using others by simp
  ultimately show ?thesis
    using foldl_latestStep_slot [of emptyObject xs "recordKey b" dp]
      foldl_groupStep_slot [of emptyObject "recordKey b" dp xs] key
    by (simp add: chunkLatest_fst latestRecords_def groupedRecords_def emptyObject_def)
qed

text \<open>
  Claim C1 at two rows of the date \<open>_\<close> and the time label \<open>proto__\<close>, whose key is
  \<open>__proto__\<close>, with revisions that \<open>Date\<close> parses to an earlier and a later time. Under
  this key the assignment \<open>acc[key] = record\<close> replaces the prototype of the accumulator
  and stores no property (on the read path the condition never holds): each of the three
  folds resolves the key to no row, and \<open>processCSVChunk\<close> counts two valid rows, gives the
  Storage Writer none and inserts none.
\<close>

theorem latest_revision_lost_under_inherited_key:
  "date fcProtoOld = date fcProtoNew \<and> time fcProtoOld = time fcProtoNew
   \<and> recordKey fcProtoNew = ''__proto__''
   \<and> newerDate sampleDate (revision fcProtoNew) (revision fcProtoOld)
   \<and> latestRecords sampleDate [fcProtoOld, fcProtoNew] = []
   \<and> latestRecords sampleDate [fcProtoNew, fcProtoOld] = []
   \<and> fst (chunkLatest sampleDate [fcProtoOld, fcProtoNew]) = []
   \<and> groupedRecords sampleDate [fcProtoOld, fcProtoNew] = []
   \<and> parseCSV (fileOf [fcstHeader, lineProtoOld, lineProtoNew]) ''d''
       = Inr [fcProtoOld, fcProtoNew]
   \<and> (case processCSVChunk (oneFile fcstName (fileOf [fcstHeader, lineProtoOld, lineProtoNew]))
              sampleRun sampleDate fcstName 1 1000 [] of
         Inl e \<Rightarrow> False
       | Inr (res, passed, st) \<Rightarrow> validRecords res = 2 \<and> passed = [] \<and> inserted res = 0)"
  by code_simp

section \<open>Rows without a revision\<close>






section \<open>The comparators of the read path and of the write path\<close>

text \<open>
  Claim C2 at a file whose first row has an empty revision cell and whose second row, of
  the same key, has a revision: the fold of \<open>getForecastData\<close> keeps the first row (load
  100), the folds of the write path keep the second (load 105), which is the row
  \<open>processCSVChunk\<close> stores.
\<close>

theorem read_write_comparators_differ:
  "map snd (groupedRecords sampleDate [fcBare, fcNew]) = [fcBare]
   \<and> map snd (latestRecords sampleDate [fcBare, fcNew]) = [fcNew]
   \<and> parseCSV (fileOf [fcstHeader, lineBare, lineNew]) ''d'' = Inr [fcBare, fcNew]
   \<and> getForecastData (oneFile fcstName (fileOf [fcstHeader, lineBare, lineNew]))
        sampleDate sampleCollate sampleSort ''d'' ''2024-01-01'' ''2024-01-01'' = Inr [fcBare]
   \<and> (case processCSVChunk (oneFile fcstName (fileOf [fcstHeader, lineBare, lineNew]))
              sampleRun sampleDate fcstName 1 1000 [] of
         Inl e \<Rightarrow> False
       | Inr (res, passed, st) \<Rightarrow> passed = [fcNew] \<and> map fst (issued st) = [upsertStmt ''d'' fcNew ''105''])"
  by code_simp

section \<open>The duplicate counter\<close>

text \<open>
  Claim C8 at the file of the running example: two valid rows of one key. With the older
  revision first, the newer row replaces it and \<open>duplicateRecords\<close> stays 0, although two
  rows collapsed into one key; with the newer revision first it is 1.
\<close>

theorem duplicate_count_misses_replaced_rows:
  "(case processCSVChunk (oneFile fcstName (fileOf [fcstHeader, lineOld, lineNew]))
            sampleRun sampleDate fcstName 1 1000 [] of
      Inl e \<Rightarrow> False
    | Inr (res, passed, st) \<Rightarrow>
        validRecords res = 2 \<and> passed = [fcNew] \<and> duplicateRecords res = 0)
   \<and> (case processCSVChunk (oneFile fcstName (fileOf [fcstHeader, lineNew, lineOld]))
            sampleRun sampleDate fcstName 1 1000 [] of
      Inl e \<Rightarrow> False
    | Inr (res, passed, st) \<Rightarrow>
        validRecords res = 2 \<and> passed = [fcNew] \<and> duplicateRecords res = 1)"
  by code_simp

section \<open>Header validation\<close>

lemma parseCSV_missing:
  assumes "2 \<le> length (split_str CHR 0x0A csv)"
    and "\<not> set (expectedHeaders type) \<subseteq> set (headersOf (split_str CHR 0x0A csv))"
  shows "parseCSV csv type =
           Inl (MissingHeaders (filter (\<lambda>h. h \<notin> set (headersOf (split_str CHR 0x0A csv)))
                  (expectedHeaders type)))"
proof -
  from assms(2) obtain h where "h \<in> set (expectedHeaders type)"
    "h \<notin> set (headersOf (split_str CHR 0x0A csv))" by auto
  then have "filter (\<lambda>h. h \<notin> set (headersOf (split_str CHR 0x0A csv))) (expectedHeaders type) \<noteq> []"
    by (auto simp: filter_empty_conv)
  with assms(1) show ?thesis by (simp add: parseCSV_def Let_def)
qed

text \<open>
  Claim C6, as amended. For every text and every record kind: a text of fewer than two
  lines fails with the error for an empty file, whatever its header. For a text of at
  least two lines, when the header line lacks one of the kind's required column names,
  \<open>parseCSV\<close> fails with the error that names the missing columns (exactly the required
  names absent from the header, and at least one), and yields no rows; its message lists
  them. In particular a forecast file of at least two lines whose header omits
  \<open>revision\<close> fails with \<open>revision\<close> in the list.
\<close>

theorem missing_header_rejected:
  "(length (split_str CHR 0x0A csv) < 2 \<longrightarrow> parseCSV csv type = Inl EmptyInput)
   \<and> (2 \<le> length (split_str CHR 0x0A csv)
        \<and> \<not> set (expectedHeaders type) \<subseteq> set (headersOf (split_str CHR 0x0A csv)) \<longrightarrow>
       (\<exists>missing. parseCSV csv type = Inl (MissingHeaders missing)
           \<and> missing \<noteq> []
           \<and> set missing = set (expectedHeaders type) - set (headersOf (split_str CHR 0x0A csv))
           \<and> errorMessage (MissingHeaders missing) =
               ''Failed to parse CSV: Error: Missing expected headers: '' @ join_str '', '' missing
           \<and> (type \<noteq> ''load'' \<and> ''revision'' \<notin> set (headersOf (split_str CHR 0x0A csv))
                \<longrightarrow> ''revision'' \<in> set missing)))"
proof (intro conjI impI)
  assume "length (split_str CHR 0x0A csv) < 2"
  then show "parseCSV csv type = Inl EmptyInput" by (simp add: parseCSV_def Let_def)
next
  assume a: "2 \<le> length (split_str CHR 0x0A csv)
        \<and> \<not> set (expectedHeaders type) \<subseteq> set (headersOf (split_str CHR 0x0A csv))"
  let ?m = "filter (\<lambda>h. h \<notin> set (headersOf (split_str CHR 0x0A csv))) (expectedHeaders type)"
  have "parseCSV csv type = Inl (MissingHeaders ?m)"
    using a by (intro parseCSV_missing) simp_all
  moreover have "?m \<noteq> []" using a by (auto simp: filter_empty_conv)
  moreover have "set ?m = set (expectedHeaders type) - set (headersOf (split_str CHR 0x0A csv))"
    by auto
  moreover have "type \<noteq> ''load'' \<and> ''revision'' \<notin> set (headersOf (split_str CHR 0x0A csv))
                \<longrightarrow> ''revision'' \<in> set ?m"
    by (simp add: expectedHeaders_def)
  ultimately show "\<exists>missing. parseCSV csv type = Inl (MissingHeaders missing)
           \<and> missing \<noteq> []
           \<and> set missing = set (expectedHeaders type) - set (headersOf (split_str CHR 0x0A csv))
           \<and> errorMessage (MissingHeaders missing) =
               ''Failed to parse CSV: Error: Missing expected headers: '' @ join_str '', '' missing
           \<and> (type \<noteq> ''load'' \<and> ''revision'' \<notin> set (headersOf (split_str CHR 0x0A csv))
                \<longrightarrow> ''revision'' \<in> set missing)"
    by simp
qed

theorem missing_header_rejected_witness:
  "parseCSV ''date,time,load_fcst'' ''d'' = Inl EmptyInput
   \<and> (\<exists>missing. parseCSV (fileOf [''date,time,load_fcst'', lineOld]) ''d''
                   = Inl (MissingHeaders missing)
        \<and> ''revision'' \<in> set missing)"
proof -
  have s: "length (split_str CHR 0x0A ''date,time,load_fcst'') < 2"
    by code_simp
  have a: "2 \<le> length (split_str CHR 0x0A (fileOf [''date,time,load_fcst'', lineOld]))"
    by code_simp
  have b: "\<not> set (expectedHeaders ''d'')
             \<subseteq> set (headersOf (split_str CHR 0x0A (fileOf [''date,time,load_fcst'', lineOld])))"
    by code_simp
  have c: "''d'' \<noteq> ''load'' \<and> ''revision''
             \<notin> set (headersOf (split_str CHR 0x0A (fileOf [''date,time,load_fcst'', lineOld])))"
    by code_simp
  note T1 = missing_header_rejected [of "''date,time,load_fcst''" "''d''",
      THEN conjunct1, THEN mp, OF s]
  note T2 = missing_header_rejected [of "fileOf [''date,time,load_fcst'', lineOld]" "''d''",
      THEN conjunct2, THEN mp, OF conjI [OF a b]]
  from T1 T2 c show ?thesis by blast
qed

text \<open>
  Claim C6 as stated fails on a text of one line: the header \<open>date,time\<close> lacks the
  column \<open>load_act\<close>, and \<open>parseCSV\<close> fails with the error for an empty file, which names
  no column: the check of the line count comes first.
\<close>

theorem header_only_text_counterexample:
  "\<not> set (expectedHeaders ''load'') \<subseteq> set (headersOf (split_str CHR 0x0A ''date,time''))
   \<and> parseCSV ''date,time'' ''load'' = Inl EmptyInput
   \<and> errorMessage EmptyInput
       = ''Failed to parse CSV: Error: CSV file is empty or has no data rows''"
  by code_simp

section \<open>Chunk processing performs no structural validation\<close>

text \<open>
  Claim C10. \<open>processCSVChunk\<close> fails only for an absent file, with the not-found error;
  for every file present in storage it returns a result, whatever the file holds: also
  for a file with no data rows and for a file whose header lacks required columns, on
  which \<open>parseCSV\<close> fails.
\<close>

theorem chunk_never_fails_on_present_file:
  "(bucket fileName = None \<longrightarrow>
      processCSVChunk bucket run dp fileName startLine chunkSize db0 = Inl NotFound)
   \<and> (bucket fileName \<noteq> None \<longrightarrow>
      (\<exists>res passed st.
         processCSVChunk bucket run dp fileName startLine chunkSize db0 = Inr (res, passed, st)))"
  by (auto simp: processCSVChunk_def Let_def split: prod.splits)

theorem chunk_never_fails_on_present_file_witness:
  "processCSVChunk (oneFile fcstName ''date,time'') sampleRun sampleDate ''absent.csv'' 1 1000 []
     = Inl NotFound
   \<and> parseCSV ''date,time'' ''d'' = Inl EmptyInput
   \<and> (\<exists>res passed st.
         processCSVChunk (oneFile fcstName ''date,time'') sampleRun sampleDate fcstName 1 1000 []
           = Inr (res, passed, st))
   \<and> parseCSV (fileOf [''date,time'', lineOld]) ''d'' = Inl (MissingHeaders [''load_fcst'', ''revision''])
   \<and> (\<exists>res passed st.
         processCSVChunk (oneFile fcstName (fileOf [''date,time'', lineOld])) sampleRun sampleDate fcstName 1 1000 []
           = Inr (res, passed, st))"
proof -
  have a: "oneFile fcstName ''date,time'' ''absent.csv'' = None"
       "oneFile fcstName ''date,time'' fcstName \<noteq> None"
       "oneFile fcstName (fileOf [''date,time'', lineOld]) fcstName \<noteq> None"
    by code_simp+
  have b: "parseCSV ''date,time'' ''d'' = Inl EmptyInput"
     "parseCSV (fileOf [''date,time'', lineOld]) ''d'' = Inl (MissingHeaders [''load_fcst'', ''revision''])"
    by code_simp+
  from chunk_never_fails_on_present_file [of "oneFile fcstName ''date,time''" "''absent.csv''" sampleRun sampleDate 1 1000 "[]"]
       chunk_never_fails_on_present_file [of "oneFile fcstName ''date,time''" fcstName sampleRun sampleDate 1 1000 "[]"]
       chunk_never_fails_on_present_file [of "oneFile fcstName (fileOf [''date,time'', lineOld])" fcstName sampleRun sampleDate 1 1000 "[]"]
       a b
  show ?thesis by blast
qed

section \<open>Properties of the Storage Writer\<close>

lemma stmtsFor_Nil: "stmtsFor type [] = []"
  by (simp add: stmtsFor_def map_filter_simps)

lemma stmtsFor_Cons:
  "stmtsFor type (r # rs) =
     (case fieldValue type r of None \<Rightarrow> stmtsFor type rs
      | Some v \<Rightarrow> upsertStmt type r v # stmtsFor type rs)"
  by (simp add: stmtsFor_def map_filter_simps split: option.splits)

lemma storeRecord_issued:
  "map fst (issued (storeRecord run type st r)) = map fst (issued st) @ stmtsFor type [r]"
  by (simp add: storeRecord_def stmtsFor_Cons stmtsFor_Nil Let_def split: option.splits prod.splits)

lemma storeRecord_counts:
  assumes "insertedCount st = length (filter snd (issued st))"
    and "errorCount st = length (filter (\<lambda>p. \<not> snd p) (issued st))"
  shows "insertedCount (storeRecord run type st r)
           = length (filter snd (issued (storeRecord run type st r)))
         \<and> errorCount (storeRecord run type st r)
           = length (filter (\<lambda>p. \<not> snd p) (issued (storeRecord run type st r)))"
  using assms by (simp add: storeRecord_def Let_def split: option.splits prod.splits)

lemma storeRecord_fixed_outcome:
  assumes "\<forall>d s. fst (run d s) = ok s"
    and "map snd (issued st) = map ok (map fst (issued st))"
  shows "map snd (issued (storeRecord run type st r))
           = map ok (map fst (issued (storeRecord run type st r)))"
proof (cases "fieldValue type r")
  case None
  then show ?thesis using assms(2) by (simp add: storeRecord_def)
next
  case (Some v)
  obtain b d' where rn: "run (db st) (upsertStmt type r v) = (b, d')" by (cases "run (db st) (upsertStmt type r v)")
  with assms(1) have "b = ok (upsertStmt type r v)" by (metis fst_conv)
  with Some rn assms(2) show ?thesis by (simp add: storeRecord_def Let_def)
qed

lemma foldl_storeRecord:
  "map fst (issued (foldl (storeRecord run type) st rs)) = map fst (issued st) @ stmtsFor type rs"
proof (induction rs arbitrary: st)
  case Nil
  then show ?case by (simp add: stmtsFor_Nil)
next
  case (Cons r rs)
  show ?case
    by (simp add: Cons.IH storeRecord_issued stmtsFor_Cons stmtsFor_Nil split: option.splits)
qed

lemma foldl_storeRecord_counts:
  assumes "insertedCount st = length (filter snd (issued st))"
    and "errorCount st = length (filter (\<lambda>p. \<not> snd p) (issued st))"
  shows "insertedCount (foldl (storeRecord run type) st rs)
           = length (filter snd (issued (foldl (storeRecord run type) st rs)))
         \<and> errorCount (foldl (storeRecord run type) st rs)
           = length (filter (\<lambda>p. \<not> snd p) (issued (foldl (storeRecord run type) st rs)))"
  using assms
proof (induction rs arbitrary: st)
  case Nil
  then show ?case by simp
next
  case (Cons r rs)
  from storeRecord_counts [OF Cons.prems, of run type r]
  show ?case by (simp add: Cons.IH)
qed

lemma foldl_storeRecord_fixed_outcome:
  assumes "\<forall>d s. fst (run d s) = ok s"
    and "map snd (issued st) = map ok (map fst (issued st))"
  shows "map snd (issued (foldl (storeRecord run type) st rs))
           = map ok (map fst (issued (foldl (storeRecord run type) st rs)))"
  using assms(2)
proof (induction rs arbitrary: st)
  case Nil
  then show ?case by simp
next
  case (Cons r rs)
  from storeRecord_fixed_outcome [OF assms(1) Cons.prems, of type r]
  show ?case by (simp add: Cons.IH)
qed

lemma length_stmtsFor:
  "length (stmtsFor type rs) = length (filter (\<lambda>r. fieldValue type r \<noteq> None) rs)"
  by (induction rs) (auto simp: stmtsFor_Nil stmtsFor_Cons split: option.splits)

lemma stmtsFor_member:
  "r \<in> set rs \<Longrightarrow> fieldValue type r = Some v \<Longrightarrow> upsertStmt type r v \<in> set (stmtsFor type rs)"
  by (induction rs) (auto simp: stmtsFor_Cons split: option.splits)

lemma count_outcomes:
  "map snd ps = map ok (map fst ps) \<Longrightarrow> length (filter snd ps) = length (filter ok (map fst ps))"
  by (induction ps) auto

text \<open>
  Claim C9, as amended. For every batch given to \<open>storeForecastData\<close>, whatever the
  database does: the statements run are exactly those of the resolved records whose value
  field is not \<open>undefined\<close>, in order, one for each such record. So a record whose value
  field is \<open>undefined\<close> is skipped, a record whose value field is a string, the empty
  string included, has its statement run, and a failed statement does not stop the ones
  after it. \<open>insertedCount\<close> is the number of
  statements that succeeded and \<open>errorCount\<close> the number that failed, so a skipped record
  is no error. When the outcome of a statement depends on the statement alone (\<open>ok\<close>),
  \<open>insertedCount\<close> is the number of those statements that are \<open>ok\<close>.
\<close>

theorem store_skips_and_continues:
  "map fst (issued (storeForecastData run dp type data db0))
     = stmtsFor type (map snd (latestRecords dp data))
   \<and> length (issued (storeForecastData run dp type data db0))
     = length (filter (\<lambda>r. fieldValue type r \<noteq> None) (map snd (latestRecords dp data)))
   \<and> (\<forall>r \<in> set (map snd (latestRecords dp data)). \<forall>v. fieldValue type r = Some v \<longrightarrow>
         upsertStmt type r v \<in> set (map fst (issued (storeForecastData run dp type data db0))))
   \<and> insertedCount (storeForecastData run dp type data db0)
     = length (filter snd (issued (storeForecastData run dp type data db0)))
   \<and> errorCount (storeForecastData run dp type data db0)
     = length (filter (\<lambda>p. \<not> snd p) (issued (storeForecastData run dp type data db0)))
   \<and> ((\<forall>d s. fst (run d s) = ok s) \<longrightarrow>
        map snd (issued (storeForecastData run dp type data db0))
          = map ok (stmtsFor type (map snd (latestRecords dp data)))
        \<and> insertedCount (storeForecastData run dp type data db0)
          = length (filter ok (stmtsFor type (map snd (latestRecords dp data)))))"
proof -
  let ?init = "\<lparr>insertedCount = 0, errorCount = 0, issued = [], db = db0\<rparr>"
  let ?rs = "map snd (latestRecords dp data)"
  let ?st = "storeForecastData run dp type data db0"
  have st: "?st = foldl (storeRecord run type) ?init ?rs"
    by (simp add: storeForecastData_def storeLoop_def Let_def)
  have i: "map fst (issued ?st) = stmtsFor type ?rs"
    unfolding st by (simp add: foldl_storeRecord)
  have l: "length (issued ?st) = length (filter (\<lambda>r. fieldValue type r \<noteq> None) ?rs)"
    using arg_cong [OF i, of length] by (simp add: length_stmtsFor)
  have mem: "\<forall>r \<in> set ?rs. \<forall>v. fieldValue type r = Some v \<longrightarrow>
               upsertStmt type r v \<in> set (map fst (issued ?st))"
    unfolding i by (blast intro: stmtsFor_member)
  have c: "insertedCount ?st = length (filter snd (issued ?st))
           \<and> errorCount ?st = length (filter (\<lambda>p. \<not> snd p) (issued ?st))"
    using foldl_storeRecord_counts [of ?init run type ?rs] by (simp add: st)
  have f': "map snd (issued ?st) = map ok (map fst (issued ?st))"
    if h: "\<forall>d s. fst (run d s) = ok s"
    unfolding st by (rule foldl_storeRecord_fixed_outcome [OF h]) simp
  have f: "map snd (issued ?st) = map ok (stmtsFor type ?rs)" if h: "\<forall>d s. fst (run d s) = ok s"
    using f' [OF h] by (simp only: i)
  have g: "insertedCount ?st = length (filter ok (stmtsFor type ?rs))"
    if h: "\<forall>d s. fst (run d s) = ok s"
  proof -
    have "insertedCount ?st = length (filter snd (issued ?st))"
      by (rule c [THEN conjunct1])
    also have "\<dots> = length (filter ok (map fst (issued ?st)))"
      by (rule count_outcomes [OF f' [OF h]])
    also have "\<dots> = length (filter ok (stmtsFor type ?rs))"
      by (simp only: i)
    finally show ?thesis .
  qed
  show ?thesis
    by (intro conjI impI)
      (rule i l mem c [THEN conjunct1] c [THEN conjunct2] f g | assumption)+
qed

theorem store_skips_and_continues_witness:
  "map fst (issued (storeForecastData sampleRun sampleDate ''d''
       [fcOld, fcNoRevision, fcNoValue, fcNew, fcThird] []))
     = [upsertStmt ''d'' fcNew ''105'', upsertStmt ''d'' fcNoRevision ''90'',
        upsertStmt ''d'' fcThird ''80'']
   \<and> map snd (issued (storeForecastData sampleRun sampleDate ''d''
       [fcOld, fcNoRevision, fcNoValue, fcNew, fcThird] []))
     = [True, False, True]
   \<and> insertedCount (storeForecastData sampleRun sampleDate ''d''
       [fcOld, fcNoRevision, fcNoValue, fcNew, fcThird] []) = 2
   \<and> errorCount (storeForecastData sampleRun sampleDate ''d''
       [fcOld, fcNoRevision, fcNoValue, fcNew, fcThird] []) = 1"
proof -
  have h: "\<forall>d s. fst (sampleRun d s) = (None \<notin> set (params s))"
    by (simp add: sampleRun_def)
  have e: "stmtsFor ''d'' (map snd (latestRecords sampleDate
             [fcOld, fcNoRevision, fcNoValue, fcNew, fcThird]))
           = [upsertStmt ''d'' fcNew ''105'', upsertStmt ''d'' fcNoRevision ''90'',
              upsertStmt ''d'' fcThird ''80'']"
    by code_simp
  have o: "map (\<lambda>s. None \<notin> set (params s))
             [upsertStmt ''d'' fcNew ''105'', upsertStmt ''d'' fcNoRevision ''90'',
              upsertStmt ''d'' fcThird ''80''] = [True, False, True]"
    by code_simp
  have l: "length (filter (\<lambda>s. None \<notin> set (params s))
             [upsertStmt ''d'' fcNew ''105'', upsertStmt ''d'' fcNoRevision ''90'',
              upsertStmt ''d'' fcThird ''80'']) = 2"
    by code_simp
  have ec: "errorCount (storeForecastData sampleRun sampleDate ''d''
       [fcOld, fcNoRevision, fcNoValue, fcNew, fcThird] []) = 1"
    by code_simp
  note T = store_skips_and_continues [of sampleRun sampleDate "''d''"
        "[fcOld, fcNoRevision, fcNoValue, fcNew, fcThird]" "[]" "\<lambda>s. None \<notin> set (params s)"]
  note T1 = T [THEN conjunct1]
  note T2 = T [THEN conjunct2, THEN conjunct2, THEN conjunct2, THEN conjunct2, THEN conjunct2,
      THEN mp, OF h]
  from T1 T2 ec show ?thesis by (simp only: e o l simp_thms)
qed

text \<open>
  Claim C9 as stated fails for a record whose value field is the empty string: the field
  holds no value, yet the record is not skipped: its statement is run and counted.
\<close>

theorem empty_value_upserted_counterexample:
  "fieldValue ''d'' fcEmptyValue = Some []
   \<and> \<not> truthy (fieldValue ''d'' fcEmptyValue)
   \<and> map fst (issued (storeForecastData sampleRun sampleDate ''d'' [fcEmptyValue] []))
       = [upsertStmt ''d'' fcEmptyValue []]
   \<and> params (upsertStmt ''d'' fcEmptyValue [])
       = [Some ''2024-01-01'', Some ''04:00'', Some [], Some ''2024-01-02T00:00:00Z'']
   \<and> insertedCount (storeForecastData sampleRun sampleDate ''d'' [fcEmptyValue] []) = 1"
  by code_simp


section \<open>Validity of the rows of a window\<close>

lemma foldl_windowStep:
  "foldl (windowStep headers) (recs, v, i) ls =
     (recs @ filter validRecord (map (parseLine headers) ls),
      v + length (filter validRecord (map (parseLine headers) ls)),
      i + length (filter (\<lambda>r. \<not> validRecord r) (map (parseLine headers) ls)))"
  by (induction ls arbitrary: recs v i) (simp_all add: windowStep_def Let_def)

lemma set_alist_update: "set (AList.update k v al) \<subseteq> insert (k, v) (set al)"
  by (induction al) auto

lemma setKey_values: "snd ` set (own (setKey a k r)) \<subseteq> insert r (snd ` set (own a))"
  using set_alist_update [of k r "own a"] by (auto simp: setKey_def)

lemma latestStep_values:
  "snd ` set (own (latestStep dp a r)) \<subseteq> insert r (snd ` set (own a))"
  using setKey_values [of a "recordKey r" r]
  by (auto simp: latestStep_def Let_def split: held.splits)

lemma foldl_latestStep_values:
  "snd ` set (own (foldl (latestStep dp) a xs)) \<subseteq> snd ` set (own a) \<union> set xs"
proof (induction xs arbitrary: a)
  case Nil
  then show ?case by simp
next
  case (Cons x xs)
  from Cons.IH [of "latestStep dp a x"] latestStep_values [of dp a x]
  show ?case by auto
qed

lemma latestRecords_values: "set (map snd (latestRecords dp xs)) \<subseteq> set xs"
  using foldl_latestStep_values [of dp emptyObject xs]
  by (simp add: latestRecords_def emptyObject_def)

lemma set_stmtsFor:
  "s \<in> set (stmtsFor type rs) \<Longrightarrow>
     \<exists>r \<in> set rs. \<exists>v. fieldValue type r = Some v \<and> s = upsertStmt type r v"
  by (induction rs) (auto simp: stmtsFor_Nil stmtsFor_Cons split: option.splits)

lemma storeForecastData_issued:
  "map fst (issued (storeForecastData run dp type data db0))
     = stmtsFor type (map snd (latestRecords dp data))"
  by (simp add: storeForecastData_def storeLoop_def Let_def foldl_storeRecord)

lemma processCSVChunk_present:
  assumes "bucket fileName = Some content"
  shows "processCSVChunk bucket run dp fileName startLine chunkSize db0 =
     (let parsed = map (parseLine (headersOf (split_str CHR 0x0A content)))
                     (chunkWindow content startLine chunkSize);
          records = filter validRecord parsed;
          passed = map snd (latestRecords dp records);
          st = storeForecastData run dp (typeOfFile fileName) passed db0
      in Inr (\<lparr>processedLines = chunkSize, validRecords = length records,
                invalidRecords = length (filter (\<lambda>r. \<not> validRecord r) parsed),
                duplicateRecords = snd (chunkLatest dp records),
                inserted = insertedCount st,
                hasMore = (startLine + chunkSize < int (length (split_str CHR 0x0A content)))\<rparr>,
              passed, st))"
  using assms
  by (simp add: processCSVChunk_def chunkWindow_def Let_def foldl_windowStep
      chunkLatest_fst [symmetric] split: prod.splits)

text \<open>
  Claim C5. A parsed row is valid exactly when its date and its time are non-empty strings
  and its \<open>load_fcst\<close> or its \<open>load_act\<close> is present, that is, holds a non-empty string (a
  cell that is empty or blank gives no value). For every call of \<open>processCSVChunk\<close> on a
  present file, with \<open>parsed\<close> the rows of the lines of the window: \<open>validRecords\<close> is the
  number of valid rows and \<open>invalidRecords\<close> the number of invalid rows; the rows that are
  deduplicated are the valid rows alone; every row given to the Storage Writer is a valid
  row of the window, and so is the row of every statement the Writer runs.
\<close>

theorem invalid_rows_dropped_and_counted:
  assumes present: "bucket fileName = Some content"
    and parsed: "parsed = map (parseLine (headersOf (split_str CHR 0x0A content)))
                   (chunkWindow content startLine chunkSize)"
  shows "(\<forall>r. validRecord r \<longleftrightarrow>
            (\<exists>d t. date r = Some d \<and> d \<noteq> [] \<and> time r = Some t \<and> t \<noteq> []
               \<and> ((\<exists>v. load_fcst r = Some v \<and> v \<noteq> []) \<or> (\<exists>v. load_act r = Some v \<and> v \<noteq> []))))
    \<and> (\<exists>res passed st.
          processCSVChunk bucket run dp fileName startLine chunkSize db0 = Inr (res, passed, st)
          \<and> validRecords res = length (filter validRecord parsed)
          \<and> invalidRecords res = length (filter (\<lambda>r. \<not> validRecord r) parsed)
          \<and> passed = map snd (latestRecords dp (filter validRecord parsed))
          \<and> (\<forall>r \<in> set passed. validRecord r \<and> r \<in> set parsed)
          \<and> (\<forall>s \<in> set (map fst (issued st)).
                \<exists>r \<in> set parsed. validRecord r
                  \<and> (\<exists>v. fieldValue (typeOfFile fileName) r = Some v
                         \<and> s = upsertStmt (typeOfFile fileName) r v)))"
proof
  show "\<forall>r. validRecord r \<longleftrightarrow>
            (\<exists>d t. date r = Some d \<and> d \<noteq> [] \<and> time r = Some t \<and> t \<noteq> []
               \<and> ((\<exists>v. load_fcst r = Some v \<and> v \<noteq> []) \<or> (\<exists>v. load_act r = Some v \<and> v \<noteq> [])))"
    by (auto simp: validRecord_def truthy_def split: option.splits)
next
  let ?records = "filter validRecord parsed"
  let ?passed = "map snd (latestRecords dp ?records)"
  let ?st = "storeForecastData run dp (typeOfFile fileName) ?passed db0"
  have sub: "set ?passed \<subseteq> set ?records" by (rule latestRecords_values)
  have p: "\<forall>r \<in> set ?passed. validRecord r \<and> r \<in> set parsed"
    using sub by auto
  have iss: "map fst (issued ?st) = stmtsFor (typeOfFile fileName) (map snd (latestRecords dp ?passed))"
    by (rule storeForecastData_issued)
  have q: "\<forall>s \<in> set (map fst (issued ?st)).
             \<exists>r \<in> set parsed. validRecord r
               \<and> (\<exists>v. fieldValue (typeOfFile fileName) r = Some v
                      \<and> s = upsertStmt (typeOfFile fileName) r v)"
  proof
    fix s assume "s \<in> set (map fst (issued ?st))"
    then have "s \<in> set (stmtsFor (typeOfFile fileName) (map snd (latestRecords dp ?passed)))"
      by (simp only: iss)
    from set_stmtsFor [OF this] obtain r v where
      r: "r \<in> set (map snd (latestRecords dp ?passed))"
      and v: "fieldValue (typeOfFile fileName) r = Some v" "s = upsertStmt (typeOfFile fileName) r v"
      by blast
    from r latestRecords_values [of dp ?passed] have "r \<in> set ?passed" by blast
    with p have "validRecord r \<and> r \<in> set parsed" by blast
    with v show "\<exists>r \<in> set parsed. validRecord r
               \<and> (\<exists>v. fieldValue (typeOfFile fileName) r = Some v
                      \<and> s = upsertStmt (typeOfFile fileName) r v)" by blast
  qed
  have "processCSVChunk bucket run dp fileName startLine chunkSize db0 =
          Inr (\<lparr>processedLines = chunkSize, validRecords = length ?records,
                invalidRecords = length (filter (\<lambda>r. \<not> validRecord r) parsed),
                duplicateRecords = snd (chunkLatest dp ?records),
                inserted = insertedCount ?st,
                hasMore = (startLine + chunkSize < int (length (split_str CHR 0x0A content)))\<rparr>,
              ?passed, ?st)"
    by (simp add: processCSVChunk_present [of bucket fileName content, OF present] parsed Let_def)
  with p q show "\<exists>res passed st.
          processCSVChunk bucket run dp fileName startLine chunkSize db0 = Inr (res, passed, st)
          \<and> validRecords res = length (filter validRecord parsed)
          \<and> invalidRecords res = length (filter (\<lambda>r. \<not> validRecord r) parsed)
          \<and> passed = map snd (latestRecords dp (filter validRecord parsed))
          \<and> (\<forall>r \<in> set passed. validRecord r \<and> r \<in> set parsed)
          \<and> (\<forall>s \<in> set (map fst (issued st)).
                \<exists>r \<in> set parsed. validRecord r
                  \<and> (\<exists>v. fieldValue (typeOfFile fileName) r = Some v
                         \<and> s = upsertStmt (typeOfFile fileName) r v))"
    by (intro exI [of _ "\<lparr>processedLines = chunkSize, validRecords = length ?records,
                invalidRecords = length (filter (\<lambda>r. \<not> validRecord r) parsed),
                duplicateRecords = snd (chunkLatest dp ?records),
                inserted = insertedCount ?st,
                hasMore = (startLine + chunkSize < int (length (split_str CHR 0x0A content)))\<rparr>"]
           exI [of _ ?passed] exI [of _ ?st]) simp
qed

theorem invalid_rows_dropped_and_counted_witness:
  "\<exists>res passed st.
     processCSVChunk (oneFile fcstName (fileOf [fcstHeader, lineOld, lineNoTime, lineNew]))
       sampleRun sampleDate fcstName 1 1000 [] = Inr (res, passed, st)
     \<and> validRecords res = 2 \<and> invalidRecords res = 1 \<and> passed = [fcNew]"
proof -
  let ?F = "fileOf [fcstHeader, lineOld, lineNoTime, lineNew]"
  let ?P = "map (parseLine (headersOf (split_str CHR 0x0A ?F))) (chunkWindow ?F 1 1000)"
  have h: "oneFile fcstName ?F fcstName = Some ?F"
    by (simp add: oneFile_def)
  have c: "length (filter validRecord ?P) = 2"
    "length (filter (\<lambda>r. \<not> validRecord r) ?P) = 1"
    "map snd (latestRecords sampleDate (filter validRecord ?P)) = [fcNew]"
    by code_simp+
  from invalid_rows_dropped_and_counted [where bucket = "oneFile fcstName ?F"
      and fileName = fcstName and content = ?F and startLine = 1 and chunkSize = 1000
      and run = sampleRun and dp = sampleDate and ?db0.0 = "[]", OF h refl, THEN conjunct2]
  obtain res passed st where
    r: "processCSVChunk (oneFile fcstName ?F) sampleRun sampleDate fcstName 1 1000 []
          = Inr (res, passed, st)"
      "validRecords res = length (filter validRecord ?P)"
      "invalidRecords res = length (filter (\<lambda>r. \<not> validRecord r) ?P)"
      "passed = map snd (latestRecords sampleDate (filter validRecord ?P))"
    by blast
  from r(2-4) have "validRecords res = 2 \<and> invalidRecords res = 1 \<and> passed = [fcNew]"
    by (simp only: c simp_thms)
  with r(1) show ?thesis by blast
qed

section \<open>Chunks cover the file\<close>

lemma validIn_append: "validIn headers (xs @ ys) = validIn headers xs + validIn headers ys"
  by (simp add: validIn_def)

lemma slice_window:
  assumes "0 \<le> s" "0 < c"
  shows "slice s (s + c) xs = take (nat c) (drop (nat s) xs)"
proof (cases "s < int (length xs)")
  case True
  with assms show ?thesis
    by (auto simp: slice_def Let_def min_def)
next
  case False
  with assms show ?thesis
    by (auto simp: slice_def Let_def min_def)
qed

lemma chunkWindow_eq:
  "0 \<le> s \<Longrightarrow> 0 < c \<Longrightarrow>
     chunkWindow content s c = take (nat c) (drop (nat s) (split_str CHR 0x0A content))"
  by (simp add: chunkWindow_def slice_window)

lemma chunk_valid_count:
  assumes "bucket fileName = Some content"
    and "processCSVChunk bucket run dp fileName s c db0 = Inr (res, passed, st)"
  shows "validRecords res
           = validIn (headersOf (split_str CHR 0x0A content)) (chunkWindow content s c)
         \<and> hasMore res = (s + c < int (length (split_str CHR 0x0A content)))"
  using assms(2)
  by (auto simp: processCSVChunk_present [of bucket fileName content, OF assms(1)]
      Let_def validIn_def)

lemma chunk_returns:
  assumes "bucket fileName = Some content"
  shows "\<exists>res passed st. processCSVChunk bucket run dp fileName s c db0 = Inr (res, passed, st)"
  by (simp add: processCSVChunk_present [of bucket fileName content, OF assms] Let_def)

lemma driveChunks_from:
  assumes present: "bucket fileName = Some content"
    and c: "0 < c"
    and s: "0 \<le> s"
  shows "\<exists>rs db'. driveChunks bucket run dp fileName s c db0 done = Some (Inr (done @ rs, db'))
           \<and> sum_list (map validRecords rs)
               = validIn (headersOf (split_str CHR 0x0A content))
                   (drop (nat s) (split_str CHR 0x0A content))
           \<and> concat (map (\<lambda>i. chunkWindow content (s + int i * c) c) [0..<length rs])
               = drop (nat s) (split_str CHR 0x0A content)"
  using s
proof (induction "nat (int (length (split_str CHR 0x0A content)) - s)"
    arbitrary: s db0 "done" rule: less_induct)
  case less
  let ?lines = "split_str CHR 0x0A content"
  let ?hs = "headersOf ?lines"
  from chunk_returns [of bucket fileName content run dp s c db0, OF present] obtain res passed st where
    r: "processCSVChunk bucket run dp fileName s c db0 = Inr (res, passed, st)" by blast
  from chunk_valid_count [of bucket fileName content, OF present r] have
    v: "validRecords res = validIn ?hs (chunkWindow content s c)"
    and h: "hasMore res = (s + c < int (length ?lines))" by simp_all
  have w: "chunkWindow content s c = take (nat c) (drop (nat s) ?lines)"
    using less.prems c by (rule chunkWindow_eq)
  show ?case
  proof (cases "hasMore res")
    case True
    with h have lt: "s + c < int (length ?lines)" by simp
    have m: "nat (int (length ?lines) - (s + c)) < nat (int (length ?lines) - s)"
      using lt c by simp
    have s': "0 \<le> s + c" using less.prems c by simp
    from less.hyps [OF m s', of "db st" "done @ [res]"] obtain rs db' where
      d: "driveChunks bucket run dp fileName (s + c) c (db st) (done @ [res])
            = Some (Inr ((done @ [res]) @ rs, db'))"
      and sm: "sum_list (map validRecords rs) = validIn ?hs (drop (nat (s + c)) ?lines)"
      and cc: "concat (map (\<lambda>i. chunkWindow content (s + c + int i * c) c) [0..<length rs])
                 = drop (nat (s + c)) ?lines"
      by blast
    have dd: "drop (nat (s + c)) ?lines = drop (nat c) (drop (nat s) ?lines)"
      using less.prems c by (simp add: nat_add_distrib add.commute)
    have split: "drop (nat s) ?lines
                   = take (nat c) (drop (nat s) ?lines) @ drop (nat (s + c)) ?lines"
      by (simp only: dd append_take_drop_id)
    have 1: "driveChunks bucket run dp fileName s c db0 done
               = Some (Inr (done @ (res # rs), db'))"
      by (subst driveChunks.simps) (simp add: r True d)
    have 2: "sum_list (map validRecords (res # rs)) = validIn ?hs (drop (nat s) ?lines)"
      by (subst split) (simp add: validIn_append sm v w)
    have shift: "map (\<lambda>i. chunkWindow content (s + int i * c) c) [0..<length (res # rs)]
             = chunkWindow content s c
               # map (\<lambda>i. chunkWindow content (s + c + int i * c) c) [0..<length rs]"
      by (simp add: upt_conv_Cons map_Suc_upt [symmetric] algebra_simps del: upt_Suc)
    have 3: "concat (map (\<lambda>i. chunkWindow content (s + int i * c) c) [0..<length (res # rs)])
               = drop (nat s) ?lines"
      by (subst split) (simp only: shift concat.simps cc w)
    from 1 2 3 show ?thesis by blast
  next
    case False
    with h have ge: "int (length ?lines) \<le> s + c" by simp
    have all: "take (nat c) (drop (nat s) ?lines) = drop (nat s) ?lines"
      using ge less.prems by simp
    have 1: "driveChunks bucket run dp fileName s c db0 done = Some (Inr (done @ [res], db st))"
      by (subst driveChunks.simps) (simp add: r False)
    have 2: "sum_list (map validRecords [res]) = validIn ?hs (drop (nat s) ?lines)"
      by (simp add: v w all)
    have 3: "concat (map (\<lambda>i. chunkWindow content (s + int i * c) c) [0..<length [res]])
               = drop (nat s) ?lines"
      by (simp add: w all)
    from 1 2 3 show ?thesis by blast
  qed
qed

text \<open>
  Claim C4, as amended. For a file present in storage, with \<open>lines\<close> its lines (the header
  is line 0): every call of \<open>processCSVChunk\<close> returns
  \<open>hasMore = (startLine + chunkSize < length lines)\<close>.
  For a positive chunk size, the caller's loop from \<open>startLine = 1\<close> ends; the windows of
  its calls, one after the other, are exactly the data lines of the file in order, so every
  data line lies in exactly one window; and the \<open>validRecords\<close> of the calls add up to the
  number of structurally valid data lines of the file.
\<close>

theorem chunks_cover_file:
  assumes present: "bucket fileName = Some content"
    and c: "0 < chunkSize"
    and lines: "lines = split_str CHR 0x0A content"
  shows "(\<forall>startLine size d. \<exists>res passed st.
            processCSVChunk bucket run dp fileName startLine size d = Inr (res, passed, st)
            \<and> hasMore res = (startLine + size < int (length lines)))
    \<and> (\<exists>rs db'.
          driveChunks bucket run dp fileName 1 chunkSize db0 [] = Some (Inr (rs, db'))
          \<and> concat (map (\<lambda>i. chunkWindow content (1 + int i * chunkSize) chunkSize)
                [0..<length rs]) = tl lines
          \<and> sum_list (map validRecords rs)
              = length (filter validRecord (map (parseLine (headersOf lines)) (tl lines))))"
proof
  show "\<forall>startLine size d. \<exists>res passed st.
            processCSVChunk bucket run dp fileName startLine size d = Inr (res, passed, st)
            \<and> hasMore res = (startLine + size < int (length lines))"
    by (simp add: processCSVChunk_present [of bucket fileName content, OF present] Let_def lines)
next
  from driveChunks_from [of bucket fileName content chunkSize 1 run dp db0 "[]", OF present c]
  obtain rs db' where
    d: "driveChunks bucket run dp fileName 1 chunkSize db0 [] = Some (Inr ([] @ rs, db'))"
    and sm: "sum_list (map validRecords rs) = validIn (headersOf lines) (drop (nat 1) lines)"
    and cc: "concat (map (\<lambda>i. chunkWindow content (1 + int i * chunkSize) chunkSize)
               [0..<length rs]) = drop (nat 1) lines"
    unfolding lines by auto
  from d sm cc show "\<exists>rs db'.
          driveChunks bucket run dp fileName 1 chunkSize db0 [] = Some (Inr (rs, db'))
          \<and> concat (map (\<lambda>i. chunkWindow content (1 + int i * chunkSize) chunkSize)
                [0..<length rs]) = tl lines
          \<and> sum_list (map validRecords rs)
              = length (filter validRecord (map (parseLine (headersOf lines)) (tl lines)))"
    by (intro exI [of _ rs] exI [of _ db']) (simp add: drop_Suc validIn_def)
qed

theorem chunks_cover_file_witness:
  "\<exists>rs db'.
     driveChunks (oneFile fcstName (fileOf [fcstHeader, lineOld, lineNoTime, lineNew]))
       sampleRun sampleDate fcstName 1 2 [] [] = Some (Inr (rs, db'))
     \<and> map validRecords rs = [1, 1]
     \<and> map hasMore rs = [True, False]
     \<and> concat (map (\<lambda>i. chunkWindow (fileOf [fcstHeader, lineOld, lineNoTime, lineNew])
                  (1 + int i * 2) 2) [0..<length rs]) = [lineOld, lineNoTime, lineNew]
     \<and> sum_list (map validRecords rs) = 2"
proof -
  let ?F = "fileOf [fcstHeader, lineOld, lineNoTime, lineNew]"
  have h: "oneFile fcstName ?F fcstName = Some ?F"
    by (simp add: oneFile_def)
  have t: "tl (split_str CHR 0x0A ?F) = [lineOld, lineNoTime, lineNew]"
    "length (filter validRecord (map (parseLine (headersOf (split_str CHR 0x0A ?F)))
        [lineOld, lineNoTime, lineNew])) = 2"
    by code_simp+
  have v: "(case driveChunks (oneFile fcstName ?F) sampleRun sampleDate fcstName 1 2 [] [] of
              Some (Inr (rs, db')) \<Rightarrow>
                map validRecords rs = [1, 1] \<and> map hasMore rs = [True, False]
            | _ \<Rightarrow> False)"
    by code_simp
  from chunks_cover_file [where bucket = "oneFile fcstName ?F" and fileName = fcstName
      and content = ?F and chunkSize = 2 and run = sampleRun and dp = sampleDate
      and ?db0.0 = "[]", OF h _ refl, THEN conjunct2]
  obtain rs db' where
    r: "driveChunks (oneFile fcstName ?F) sampleRun sampleDate fcstName 1 2 [] []
          = Some (Inr (rs, db'))"
      "concat (map (\<lambda>i. chunkWindow ?F (1 + int i * 2) 2) [0..<length rs])
          = tl (split_str CHR 0x0A ?F)"
      "sum_list (map validRecords rs)
          = length (filter validRecord (map (parseLine (headersOf (split_str CHR 0x0A ?F)))
              (tl (split_str CHR 0x0A ?F))))"
    by auto
  from v r(1) have "map validRecords rs = [1, 1] \<and> map hasMore rs = [True, False]"
    by simp
  moreover from r(2,3) have
    "concat (map (\<lambda>i. chunkWindow ?F (1 + int i * 2) 2) [0..<length rs])
       = [lineOld, lineNoTime, lineNew]"
    "sum_list (map validRecords rs) = 2"
    by (simp_all only: t)
  ultimately show ?thesis using r(1)
    by (intro exI [of _ rs] exI [of _ db']) simp
qed

text \<open>
  With a chunk size that is not positive the caller's loop makes no progress: while the
  results say \<open>hasMore\<close>, it never ends.
\<close>

lemma driveChunks_diverges:
  assumes "driveChunks bucket run dp fileName startLine chunkSize db0 done = Some y"
  shows "\<forall>content. \<not> (bucket fileName = Some content \<and> chunkSize \<le> 0
            \<and> startLine + chunkSize < int (length (split_str CHR 0x0A content)))"
proof (rule driveChunks.raw_induct [where P = "\<lambda>bucket run dp fileName startLine chunkSize
      db0 done y. \<forall>content. \<not> (bucket fileName = Some content \<and> chunkSize \<le> 0
        \<and> startLine + chunkSize < int (length (split_str CHR 0x0A content)))", OF _ assms],
    goal_cases)
  case (1 f bucket run dp fileName startLine chunkSize db0 d y)
  show ?case
  proof (intro allI notI)
    fix content
    assume a: "bucket fileName = Some content \<and> chunkSize \<le> 0
            \<and> startLine + chunkSize < int (length (split_str CHR 0x0A content))"
    then have present: "bucket fileName = Some content" by simp
    from chunk_returns [of bucket fileName content run dp startLine chunkSize db0, OF present]
    obtain res passed st where
      r: "processCSVChunk bucket run dp fileName startLine chunkSize db0 = Inr (res, passed, st)"
      by blast
    from chunk_valid_count [of bucket fileName content, OF present r] a
    have h: "hasMore res" by simp
    from 1(2) r h have
      "f bucket run dp fileName (startLine + chunkSize) chunkSize (db st) (d @ [res]) = Some y"
      by simp
    from 1(1) [OF this] a show False by simp
  qed
qed

text \<open>
  Claim C4 as stated fails at the chunk size 0: every call of \<open>processCSVChunk\<close> from
  line 1 takes an empty window and says \<open>hasMore\<close>, and the caller's loop never ends.
\<close>

theorem zero_chunk_size_counterexample:
  "chunkWindow (fileOf [fcstHeader, lineOld, lineNew]) 1 0 = []
   \<and> (case processCSVChunk (oneFile fcstName (fileOf [fcstHeader, lineOld, lineNew]))
              sampleRun sampleDate fcstName 1 0 [] of
         Inl e \<Rightarrow> False
       | Inr (res, passed, st) \<Rightarrow> hasMore res \<and> validRecords res = 0 \<and> invalidRecords res = 0)
   \<and> driveChunks (oneFile fcstName (fileOf [fcstHeader, lineOld, lineNew]))
        sampleRun sampleDate fcstName 1 0 [] [] = None"
proof -
  let ?F = "fileOf [fcstHeader, lineOld, lineNew]"
  have w: "chunkWindow ?F 1 0 = []" by code_simp
  have p: "(case processCSVChunk (oneFile fcstName ?F) sampleRun sampleDate fcstName 1 0 [] of
         Inl e \<Rightarrow> False
       | Inr (res, passed, st) \<Rightarrow> hasMore res \<and> validRecords res = 0 \<and> invalidRecords res = 0)"
    by code_simp
  have c: "oneFile fcstName ?F fcstName = Some ?F \<and> (0::int) \<le> 0
            \<and> 1 + 0 < int (length (split_str CHR 0x0A ?F))"
    by code_simp
  have "driveChunks (oneFile fcstName ?F) sampleRun sampleDate fcstName 1 0 [] [] = None"
  proof (rule ccontr)
    assume "driveChunks (oneFile fcstName ?F) sampleRun sampleDate fcstName 1 0 [] [] \<noteq> None"
    then obtain y where
      "driveChunks (oneFile fcstName ?F) sampleRun sampleDate fcstName 1 0 [] [] = Some y"
      by auto
    from driveChunks_diverges [OF this] c show False by blast
  qed
  with w p show ?thesis by simp
qed

section \<open>Properties of the Range Reader\<close>

lemma collation_sym0: "collation lc \<Longrightarrow> (lc a b = 0) = (lc b a = 0)"
  unfolding collation_def by (metis less_le_not_le linorder_neqE_linordered_idom)




lemma recordLe_total: "collation lc \<Longrightarrow> \<not> recordLe lc a b \<Longrightarrow> recordLe lc b a"
proof -
  assume c: "collation lc" and n: "\<not> recordLe lc a b"
  let ?d = "lc (toStr (date a)) (toStr (date b))" and ?t = "lc (toStr (time a)) (toStr (time b))"
  let ?d' = "lc (toStr (date b)) (toStr (date a))" and ?t' = "lc (toStr (time b)) (toStr (time a))"
  from n have 1: "0 \<le> ?d" and 2: "?d \<noteq> 0 \<or> 0 < ?t" by (auto simp: recordLe_def Let_def)
  show ?thesis
  proof (cases "?d = 0")
    case True
    with 2 have "0 < ?t" by simp
    with c have "?t' < 0" unfolding collation_def by blast
    moreover from True have "?d' = 0" using collation_sym0 [OF c] by simp
    ultimately show ?thesis by (simp add: recordLe_def)
  next
    case False
    with 1 have "0 < ?d" by simp
    with c have "?d' < 0" unfolding collation_def by blast
    then show ?thesis by (simp add: recordLe_def)
  qed
qed

























end
